theory Spec2Isabelle
  imports Main "HOL-Library.Word" "HOL-Library.Multiset"
begin

section \<open>Machine types\<close>

text \<open>
  \<open>size_t\<close> is a 64-bit unsigned integer: \<open>+\<close> and \<open>*\<close> wrap around. \<open>int\<close> is 32 bits
  wide; the conversion \<open>(int)x\<close> of a \<open>size_t\<close> keeps the low 32 bits.
\<close>

type_synonym size_t = "64 word"
type_synonym c_int = "32 word"

section \<open>The device: what the CUDA runtime calls of matrix.h act on\<close>

text \<open>
  Device memory is a store of regions, each at an address of its own. A region records
  the byte count it was allocated with and its cells, one per whole element of type \<open>T\<close>;
  a cell is uninitialised until something is written to it. Address \<open>0\<close> is
  \<open>nullptr\<close>. \<open>avail\<close> is the number of bytes the device can still hand out; an
  allocation that asks for more fails with \<open>cudaErrorMemoryAllocation\<close>. An allocation
  of 0 bytes succeeds and returns \<open>nullptr\<close>, \<open>cudaFree(nullptr)\<close> succeeds and does
  nothing, and setting or copying 0 bytes does nothing. A call that names an address
  without a region, or more bytes than a region has, fails with \<open>cudaErrorInvalidValue\<close>.
  \<open>cudaMemset0\<close> is \<open>cudaMemset\<close> with the value 0, the only one matrix.h passes.

  Both instantiations of the template in matrix.h (\<open>TMatrix<float>\<close>, \<open>TMatrix<int>\<close>)
  have \<open>sizeof(T) = 4\<close>.

  \<open>cudaMemcpyAsync\<close> is issued on the one stream of \<open>CudaStreamHandler::GetStream()\<close>;
  operations of one stream take effect in program order, so the model performs the
  copy at the call.
\<close>

type_synonym ptr = nat

definition nullptr :: ptr where
  "nullptr = 0"

datatype 'a cell = Uninit | Val 'a

record 'a region =
  nbytes :: nat
  cells :: "'a cell list"

record 'a device =
  heap :: "(ptr \<times> 'a region) list"
  avail :: nat

datatype cudaError = cudaErrorMemoryAllocation | cudaErrorInvalidValue

definition sizeof_T :: size_t where
  "sizeof_T = 4"

definition fresh_ptr :: "(ptr \<times> 'a region) list \<Rightarrow> ptr" where
  "fresh_ptr h = Suc (fold max (map fst h) 0)"

definition cudaMalloc :: "'a device \<Rightarrow> size_t \<Rightarrow> cudaError + (ptr \<times> 'a device)" where
  "cudaMalloc dev bytes =
     (if bytes = 0 then Inr (nullptr, dev)
      else if avail dev < unat bytes then Inl cudaErrorMemoryAllocation
      else
        (let p = fresh_ptr (heap dev);
             r = \<lparr>nbytes = unat bytes,
                  cells = replicate (unat bytes div unat sizeof_T) Uninit\<rparr>
         in Inr (p, dev\<lparr>heap := (p, r) # heap dev, avail := avail dev - unat bytes\<rparr>)))"

definition cudaFree :: "'a device \<Rightarrow> ptr \<Rightarrow> cudaError + 'a device" where
  "cudaFree dev p =
     (if p = nullptr then Inr dev
      else
        (case map_of (heap dev) p of
           None \<Rightarrow> Inl cudaErrorInvalidValue
         | Some r \<Rightarrow>
             Inr (dev\<lparr>heap := filter (\<lambda>e. fst e \<noteq> p) (heap dev),
                      avail := avail dev + nbytes r\<rparr>)))"

definition cudaMemset0 :: "('a::zero) device \<Rightarrow> ptr \<Rightarrow> size_t \<Rightarrow> cudaError + 'a device" where
  "cudaMemset0 dev p bytes =
     (if bytes = 0 then Inr dev
      else
        (case map_of (heap dev) p of
           None \<Rightarrow> Inl cudaErrorInvalidValue
         | Some r \<Rightarrow>
             if nbytes r < unat bytes then Inl cudaErrorInvalidValue
             else
               (let k = unat bytes div unat sizeof_T;
                    r' = r\<lparr>cells := replicate k (Val 0) @ drop k (cells r)\<rparr>
                in Inr (dev\<lparr>heap := (p, r') # filter (\<lambda>e. fst e \<noteq> p) (heap dev)\<rparr>))))"

definition cudaMemcpyAsync ::
  "'a device \<Rightarrow> ptr \<Rightarrow> ptr \<Rightarrow> size_t \<Rightarrow> cudaError + 'a device" where
  "cudaMemcpyAsync dev dst src bytes =
     (if bytes = 0 then Inr dev
      else
        (case (map_of (heap dev) dst, map_of (heap dev) src) of
           (Some rd, Some rs) \<Rightarrow>
             if nbytes rd < unat bytes \<or> nbytes rs < unat bytes then Inl cudaErrorInvalidValue
             else
               (let k = unat bytes div unat sizeof_T;
                    rd' = rd\<lparr>cells := take k (cells rs) @ drop k (cells rd)\<rparr>
                in Inr (dev\<lparr>heap := (dst, rd') # filter (\<lambda>e. fst e \<noteq> dst) (heap dev)\<rparr>))
         | _ \<Rightarrow> Inl cudaErrorInvalidValue))"


definition region_at :: "'a device \<Rightarrow> ptr \<Rightarrow> 'a region option" where
  "region_at dev p = map_of (heap dev) p"

section \<open>Errors\<close>

text \<open>
  Modelled from the spec: the macros \<open>HANDLE_ERROR\<close> (gpu/mblas/handles.h) and
  \<open>amunmt_UTIL_THROW_IF2\<close> (common/exception.h) are not part of the sources at hand.
  After the spec, a failed allocation or transfer raises a device fault, fatal for the
  process, and a \<open>Reshape\<close> beyond the capacity raises a capacity error, distinct from a
  device fault; the exception carries the message of the call.
\<close>

datatype error = DeviceFault cudaError | CapacityViolation string

definition HANDLE_ERROR :: "cudaError + 'x \<Rightarrow> ('x \<Rightarrow> error + 'y) \<Rightarrow> error + 'y" where
  "HANDLE_ERROR r k = (case r of Inl e \<Rightarrow> Inl (DeviceFault e) | Inr x \<Rightarrow> k x)"

section \<open>TMatrix (gpu/mblas/matrix.h)\<close>

text \<open>
  The private members \<open>rows_\<close>, \<open>cols_\<close>, \<open>beam_\<close>, \<open>batches_\<close>, \<open>arrSize_\<close> and
  \<open>data_\<close>; a name cannot end in an underscore here, so a prime stands for it.
\<close>

record TMatrix =
  rows' :: size_t
  cols' :: size_t
  beam' :: size_t
  batches' :: size_t
  arrSize' :: size_t
  data' :: ptr

definition size_TMatrix :: "TMatrix \<Rightarrow> size_t" where
  "size_TMatrix m = cols' m * rows' m * beam' m * batches' m"

definition operator_bool :: "TMatrix \<Rightarrow> bool" where
  "operator_bool m = ((ucast (size_TMatrix m) :: c_int) \<noteq> 0)"

definition TMatrix_default :: TMatrix where
  "TMatrix_default =
     \<lparr>rows' = 0, cols' = 0, beam' = 0, batches' = 0, arrSize' = 0, data' = nullptr\<rparr>"

text \<open>
  The sized constructor. Members are initialised in the order of their declaration, so
  \<open>arrSize_(size())\<close> reads \<open>rows_\<close>, \<open>cols_\<close>, \<open>beam_ = 1\<close> and \<open>batches_ = 1\<close>;
  the arguments \<open>beam\<close> and \<open>batches\<close> are not read.
\<close>

definition TMatrix_sized ::
  "('a::zero) device \<Rightarrow> size_t \<Rightarrow> size_t \<Rightarrow> size_t \<Rightarrow> size_t \<Rightarrow> bool
     \<Rightarrow> error + ('a device \<times> TMatrix)" where
  "TMatrix_sized dev rows cols beam batches zero =
     (let m0 = \<lparr>rows' = rows, cols' = cols, beam' = 1, batches' = 1,
                arrSize' = 0, data' = nullptr\<rparr>;
          m1 = m0\<lparr>arrSize' := size_TMatrix m0\<rparr>
      in HANDLE_ERROR (cudaMalloc dev (arrSize' m1 * sizeof_T)) (\<lambda>(p, dev1).
           let m2 = m1\<lparr>data' := p\<rparr> in
           if zero then
             HANDLE_ERROR (cudaMemset0 dev1 (data' m2) (arrSize' m2 * sizeof_T)) (\<lambda>dev2.
               Inr (dev2, m2))
           else Inr (dev1, m2)))"

definition swap :: "TMatrix \<Rightarrow> TMatrix \<Rightarrow> TMatrix \<times> TMatrix" where
  "swap this other =
     (this\<lparr>rows' := rows' other, cols' := cols' other, beam' := beam' other,
           batches' := batches' other, arrSize' := arrSize' other, data' := data' other\<rparr>,
      other\<lparr>rows' := rows' this, cols' := cols' this, beam' := beam' this,
            batches' := batches' this, arrSize' := arrSize' this, data' := data' this\<rparr>)"

text \<open>The move constructor: the new matrix and what is left of the source.\<close>

definition TMatrix_move :: "TMatrix \<Rightarrow> TMatrix \<times> TMatrix" where
  "TMatrix_move m = swap TMatrix_default m"

definition TMatrix_copy :: "'a device \<Rightarrow> TMatrix \<Rightarrow> error + ('a device \<times> TMatrix)" where
  "TMatrix_copy dev m =
     (let n0 = \<lparr>rows' = rows' m, cols' = cols' m, beam' = beam' m, batches' = batches' m,
                arrSize' = arrSize' m, data' = nullptr\<rparr>
      in HANDLE_ERROR (cudaMalloc dev (arrSize' n0 * sizeof_T)) (\<lambda>(p, dev1).
           let n1 = n0\<lparr>data' := p\<rparr> in
           HANDLE_ERROR (cudaMemcpyAsync dev1 (data' n1) (data' m) (arrSize' n1 * sizeof_T))
             (\<lambda>dev2. Inr (dev2, n1))))"

definition Clear :: "'a device \<Rightarrow> TMatrix \<Rightarrow> error + ('a device \<times> TMatrix)" where
  "Clear dev m =
     HANDLE_ERROR (cudaFree dev (data' m)) (\<lambda>dev1.
       Inr (dev1, m\<lparr>data' := nullptr, rows' := 0, cols' := 0, beam' := 0,
                    batches' := 0, arrSize' := 0\<rparr>))"

definition set_shape :: "TMatrix \<Rightarrow> size_t \<Rightarrow> size_t \<Rightarrow> size_t \<Rightarrow> size_t \<Rightarrow> TMatrix" where
  "set_shape m rows cols beam batches =
     m\<lparr>rows' := rows, cols' := cols, beam' := beam, batches' := batches\<rparr>"

definition Resize ::
  "'a device \<Rightarrow> TMatrix \<Rightarrow> size_t \<Rightarrow> size_t \<Rightarrow> size_t \<Rightarrow> size_t
     \<Rightarrow> error + ('a device \<times> TMatrix)" where
  "Resize dev m rows cols beam batches =
     (let newSize = cols * rows * beam * batches in
      if data' m \<noteq> nullptr then
        if arrSize' m < newSize then
          HANDLE_ERROR (cudaMalloc dev (newSize * sizeof_T)) (\<lambda>(newData, dev1).
            HANDLE_ERROR (cudaMemcpyAsync dev1 newData (data' m) (size_TMatrix m * sizeof_T)) (\<lambda>dev2.
              HANDLE_ERROR (cudaFree dev2 (data' m)) (\<lambda>dev3.
                Inr (dev3, set_shape (m\<lparr>data' := newData, arrSize' := newSize\<rparr>)
                                     rows cols beam batches))))
        else if rows = 0 \<or> cols = 0 then
          (case Clear dev m of
             Inl e \<Rightarrow> Inl e
           | Inr (dev1, m1) \<Rightarrow> Inr (dev1, set_shape m1 rows cols beam batches))
        else Inr (dev, set_shape m rows cols beam batches)
      else
        HANDLE_ERROR (cudaMalloc dev (newSize * sizeof_T)) (\<lambda>(p, dev1).
          Inr (dev1, set_shape (m\<lparr>data' := p, arrSize' := newSize\<rparr>) rows cols beam batches)))"

text \<open>
  \<open>Reshape\<close> throws before it assigns. The exception can be caught, and the matrix is
  still there then: the failure carries the matrix as the throw left it.
\<close>

definition Reshape ::
  "TMatrix \<Rightarrow> size_t \<Rightarrow> size_t \<Rightarrow> size_t \<Rightarrow> size_t \<Rightarrow> (error \<times> TMatrix) + TMatrix" where
  "Reshape m rows cols beam batches =
     (let newSize = cols * rows * beam * batches in
      if arrSize' m < newSize
      then Inl (CapacityViolation ''Must reshape to same or smaller size'', m)
      else Inr (set_shape m rows cols beam batches))"

definition Reshape2D :: "TMatrix \<Rightarrow> TMatrix" where
  "Reshape2D m = m\<lparr>rows' := rows' m * beam' m * batches' m, beam' := 1, batches' := 1\<rparr>"

text \<open>The capacity is at least \<open>size()\<close>, the element count as \<open>size_t\<close> arithmetic gives it.\<close>

definition capacity_ok :: "TMatrix \<Rightarrow> bool" where
  "capacity_ok m \<longleftrightarrow> size_TMatrix m \<le> arrSize' m"



text \<open>
  The logical element count as a number, \<open>rows_ * cols_ * beam_ * batches_\<close> without
  wrap-around, and what it means for four requested dimensions that their product
  fits \<open>size_t\<close>. A matrix is covered when its capacity is at least that count.
\<close>

definition elements :: "TMatrix \<Rightarrow> nat" where
  "elements m = unat (rows' m) * unat (cols' m) * unat (beam' m) * unat (batches' m)"

definition fits :: "size_t \<Rightarrow> size_t \<Rightarrow> size_t \<Rightarrow> size_t \<Rightarrow> bool" where
  "fits r c b bt \<longleftrightarrow> unat r * unat c * unat b * unat bt < 2 ^ 64"

definition covered :: "TMatrix \<Rightarrow> bool" where
  "covered m \<longleftrightarrow> elements m \<le> unat (arrSize' m)"

section \<open>Programs over several matrices\<close>

text \<open>
  A client of matrix.h holds a device and the matrices it has constructed so far, and
  performs the public operations on them one after the other. A step that names a matrix
  by its position performs nothing when there is no such matrix. The first failure ends
  the run, as the exit of \<open>HANDLE_ERROR\<close> and the exception of \<open>Reshape\<close> do.
\<close>

datatype step =
    New_default
  | New_sized size_t size_t size_t size_t bool
  | New_copy nat
  | New_move nat
  | Do_Resize nat size_t size_t size_t size_t
  | Do_Reshape nat size_t size_t size_t size_t
  | Do_Reshape2D nat
  | Do_Clear nat
  | Do_swap nat nat

type_synonym 'a world = "'a device \<times> TMatrix list"

fun exec :: "step \<Rightarrow> ('a::zero) world \<Rightarrow> error + 'a world" where
  "exec New_default (dev, ms) = Inr (dev, ms @ [TMatrix_default])"
| "exec (New_sized r c b bt z) (dev, ms) =
     (case TMatrix_sized dev r c b bt z of
        Inl e \<Rightarrow> Inl e
      | Inr (dev1, m) \<Rightarrow> Inr (dev1, ms @ [m]))"
| "exec (New_copy i) (dev, ms) =
     (if i < length ms then
        (case TMatrix_copy dev (ms ! i) of
           Inl e \<Rightarrow> Inl e
         | Inr (dev1, m) \<Rightarrow> Inr (dev1, ms @ [m]))
      else Inr (dev, ms))"
| "exec (New_move i) (dev, ms) =
     (if i < length ms then
        (let (m, src) = TMatrix_move (ms ! i) in Inr (dev, ms[i := src] @ [m]))
      else Inr (dev, ms))"
| "exec (Do_Resize i r c b bt) (dev, ms) =
     (if i < length ms then
        (case Resize dev (ms ! i) r c b bt of
           Inl e \<Rightarrow> Inl e
         | Inr (dev1, m) \<Rightarrow> Inr (dev1, ms[i := m]))
      else Inr (dev, ms))"
| "exec (Do_Reshape i r c b bt) (dev, ms) =
     (if i < length ms then
        (case Reshape (ms ! i) r c b bt of
           Inl (e, _) \<Rightarrow> Inl e
         | Inr m \<Rightarrow> Inr (dev, ms[i := m]))
      else Inr (dev, ms))"
| "exec (Do_Reshape2D i) (dev, ms) =
     (if i < length ms then Inr (dev, ms[i := Reshape2D (ms ! i)]) else Inr (dev, ms))"
| "exec (Do_Clear i) (dev, ms) =
     (if i < length ms then
        (case Clear dev (ms ! i) of
           Inl e \<Rightarrow> Inl e
         | Inr (dev1, m) \<Rightarrow> Inr (dev1, ms[i := m]))
      else Inr (dev, ms))"
| "exec (Do_swap i j) (dev, ms) =
     (if i < length ms \<and> j < length ms then
        (let (a, b) = swap (ms ! i) (ms ! j) in Inr (dev, ms[i := a, j := b]))
      else Inr (dev, ms))"

fun run :: "step list \<Rightarrow> ('a::zero) world \<Rightarrow> error + 'a world" where
  "run [] w = Inr w"
| "run (s # ss) w = (case exec s w of Inl e \<Rightarrow> Inl e | Inr w1 \<Rightarrow> run ss w1)"

text \<open>Calls of \<open>Resize\<close>, \<open>Reshape\<close> and \<open>Clear\<close> on one matrix.\<close>

datatype call =
    Call_Resize size_t size_t size_t size_t
  | Call_Reshape size_t size_t size_t size_t
  | Call_Clear

fun call1 :: "call \<Rightarrow> 'a device \<times> TMatrix \<Rightarrow> error + ('a device \<times> TMatrix)" where
  "call1 (Call_Resize r c b bt) (dev, m) = Resize dev m r c b bt"
| "call1 (Call_Reshape r c b bt) (dev, m) =
     (case Reshape m r c b bt of Inl (e, _) \<Rightarrow> Inl e | Inr m1 \<Rightarrow> Inr (dev, m1))"
| "call1 Call_Clear (dev, m) = Clear dev m"

fun calls :: "call list \<Rightarrow> 'a device \<times> TMatrix \<Rightarrow> error + ('a device \<times> TMatrix)" where
  "calls [] w = Inr w"
| "calls (c # cs) w = (case call1 c w of Inl e \<Rightarrow> Inl e | Inr w1 \<Rightarrow> calls cs w1)"

fun call_fits :: "call \<Rightarrow> bool" where
  "call_fits (Call_Resize r c b bt) = fits r c b bt"
| "call_fits (Call_Reshape r c b bt) = fits r c b bt"
| "call_fits Call_Clear = True"

section \<open>Sentences and batches\<close>

text \<open>
  Modelled from the spec: the class \<open>Sentence\<close> (common/sentence.h) is not part of the
  sources at hand. The spec gives a sentence an identity, the 0-based index of its
  input line, and a token sequence derived from the raw line. How a line is cut into
  tokens is left open: the tokeniser is a parameter \<open>tok\<close> of the constructor.
\<close>

record Sentence =
  lineNo :: size_t
  tokens :: "string list"

definition Sentence_new :: "(string \<Rightarrow> string list) \<Rightarrow> size_t \<Rightarrow> string \<Rightarrow> Sentence" where
  "Sentence_new tok n ln = \<lparr>lineNo = n, tokens = tok ln\<rparr>"

text \<open>A tokeniser for the examples: the tokens are the maximal runs without a blank.\<close>

fun Split_from :: "string \<Rightarrow> string \<Rightarrow> string list" where
  "Split_from cur [] = (if cur = [] then [] else [cur])"
| "Split_from cur (c # cs) =
     (if c = CHR '' '' then (if cur = [] then Split_from [] cs else cur # Split_from [] cs)
      else Split_from (cur @ [c]) cs)"

definition Split :: "string \<Rightarrow> string list" where
  "Split ln = Split_from [] ln"

text \<open>The sentences that \<open>main\<close> constructs for the lines \<open>lns\<close>, the counter being at \<open>n0\<close>.\<close>

definition sentences_from ::
  "(string \<Rightarrow> string list) \<Rightarrow> size_t \<Rightarrow> string list \<Rightarrow> Sentence list" where
  "sentences_from tok n0 lns =
     map (\<lambda>(k, ln). Sentence_new tok (n0 + of_nat k) ln) (enumerate 0 lns)"

text \<open>
  Modelled from the spec: the class \<open>Sentences\<close> (common/sentences.h) is not part of the
  sources at hand. \<open>sortByLength\<close> reorders the members stably by token length, here
  ascending as in the spec's scenario; \<open>takeMiniBatch(n)\<close> removes up to \<open>n\<close> members
  from the front and returns them, the source batch keeping the rest.
\<close>

definition SortByLength :: "Sentence list \<Rightarrow> Sentence list" where
  "SortByLength b = sort_key (\<lambda>s. length (tokens s)) b"

definition NextMiniBatch :: "Sentence list \<Rightarrow> size_t \<Rightarrow> Sentence list \<times> Sentence list" where
  "NextMiniBatch b n = (take (unat n) b, drop (unat n) b)"

section \<open>The scheduling loop of main (common/decoder_main.cpp)\<close>

text \<open>
  The state of \<open>main\<close>: the accumulator \<open>maxiBatch\<close>, the counter \<open>lineNum\<close> and the
  mini-batches handed to \<open>god.GetThreadPool().enqueue\<close> so far, oldest first. The task
  that translates a mini-batch runs elsewhere and is not part of the loop.

  \<open>miniSize\<close> and \<open>maxiSize\<close> are what \<open>god.Get<size_t>\<close> returned; \<open>main\<close> uses them
  as they come.
\<close>

record main_state =
  maxiBatch :: "Sentence list"
  lineNum :: size_t
  enqueued :: "Sentence list list"

text \<open>
  The inner loop \<open>while (maxiBatch->size())\<close>. Nothing in it bounds the number of
  rounds, so it is a partial function: \<open>None\<close> is a loop that never ends.
\<close>

partial_function (option) slice_loop ::
  "size_t \<Rightarrow> Sentence list \<Rightarrow> Sentence list list \<Rightarrow> Sentence list list option" where
  "slice_loop miniSize maxi q =
     (if length maxi \<noteq> 0 then
        slice_loop miniSize (snd (NextMiniBatch maxi miniSize))
                   (q @ [fst (NextMiniBatch maxi miniSize)])
      else Some q)"

declare slice_loop.simps [code]

text \<open>The reading loop \<open>while (std::getline(...))\<close>, one round per line of the input.\<close>

fun read_loop ::
  "(string \<Rightarrow> string list) \<Rightarrow> size_t \<Rightarrow> size_t \<Rightarrow> string list \<Rightarrow> main_state
     \<Rightarrow> main_state option" where
  "read_loop tok miniSize maxiSize [] st = Some st"
| "read_loop tok miniSize maxiSize (ln # lns) st =
     (let st1 = st\<lparr>maxiBatch := maxiBatch st @ [Sentence_new tok (lineNum st) ln],
                   lineNum := lineNum st + 1\<rparr>
      in if unat maxiSize \<le> length (maxiBatch st1) then
           (case slice_loop miniSize (SortByLength (maxiBatch st1)) (enqueued st1) of
              None \<Rightarrow> None
            | Some q \<Rightarrow>
                read_loop tok miniSize maxiSize lns (st1\<lparr>maxiBatch := [], enqueued := q\<rparr>))
         else read_loop tok miniSize maxiSize lns st1)"

text \<open>The block after the loop (\<open>// last batch\<close>).\<close>

definition last_batch :: "size_t \<Rightarrow> main_state \<Rightarrow> main_state option" where
  "last_batch miniSize st =
     (if length (maxiBatch st) \<noteq> 0 then
        (case slice_loop miniSize (SortByLength (maxiBatch st)) (enqueued st) of
           None \<Rightarrow> None
         | Some q \<Rightarrow> Some (st\<lparr>maxiBatch := [], enqueued := q\<rparr>))
      else Some st)"

definition main_init :: main_state where
  "main_init = \<lparr>maxiBatch = [], lineNum = 0, enqueued = []\<rparr>"

text \<open>\<open>main\<close>: the mini-batches enqueued over the whole run, in the order of the calls.\<close>

definition main ::
  "(string \<Rightarrow> string list) \<Rightarrow> size_t \<Rightarrow> size_t \<Rightarrow> string list \<Rightarrow> Sentence list list option" where
  "main tok miniSize maxiSize lns =
     (case read_loop tok miniSize maxiSize lns main_init of
        None \<Rightarrow> None
      | Some st \<Rightarrow> map_option enqueued (last_batch miniSize st))"

section \<open>Facts about the device\<close>





lemma map_of_filter_other: "q \<noteq> p \<Longrightarrow> map_of (filter (\<lambda>e. fst e \<noteq> p) h) q = map_of h q"
  by (induction h) auto



lemma map_of_filter_same: "map_of (filter (\<lambda>e. fst e \<noteq> p) h) p = None"
  by (induction h) auto

section \<open>Element counts in size_t\<close>

lemma unat_product:
  "unat (c * r * b * bt :: size_t) = (unat r * unat c * unat b * unat bt) mod 2 ^ 64"
proof -
  have "c * r * b * bt = (of_nat (unat r * unat c * unat b * unat bt) :: size_t)"
    by (simp add: mult_ac)
  then show ?thesis by (simp only: unat_of_nat) simp
qed

lemma unat_product_fits:
  "fits r c b bt \<Longrightarrow> unat (c * r * b * bt) = unat r * unat c * unat b * unat bt"
  by (simp add: unat_product fits_def)

section \<open>The capacity invariant\<close>

lemma capacity_ok_default: "capacity_ok TMatrix_default"
  by (simp add: capacity_ok_def TMatrix_default_def size_TMatrix_def)

lemma capacity_ok_sized: "TMatrix_sized dev r c b bt z = Inr (dev1, m) \<Longrightarrow> capacity_ok m"
  by (auto simp: TMatrix_sized_def HANDLE_ERROR_def Let_def capacity_ok_def size_TMatrix_def
      split: sum.splits if_splits prod.splits)

lemma capacity_ok_copy:
  "capacity_ok m \<Longrightarrow> TMatrix_copy dev m = Inr (dev1, n) \<Longrightarrow> capacity_ok n"
  by (auto simp: TMatrix_copy_def HANDLE_ERROR_def Let_def capacity_ok_def size_TMatrix_def
      split: sum.splits if_splits prod.splits)

lemma capacity_ok_swap:
  "capacity_ok a \<Longrightarrow> capacity_ok b \<Longrightarrow> swap a b = (a1, b1) \<Longrightarrow> capacity_ok a1 \<and> capacity_ok b1"
  by (auto simp: swap_def capacity_ok_def size_TMatrix_def)

lemma capacity_ok_move:
  "capacity_ok m \<Longrightarrow> TMatrix_move m = (n, src) \<Longrightarrow> capacity_ok n \<and> capacity_ok src"
  unfolding TMatrix_move_def using capacity_ok_swap [OF capacity_ok_default] by blast

lemma capacity_ok_Clear: "Clear dev m = Inr (dev1, m1) \<Longrightarrow> capacity_ok m1"
  by (auto simp: Clear_def HANDLE_ERROR_def capacity_ok_def size_TMatrix_def split: sum.splits)

lemma capacity_ok_Resize:
  "capacity_ok m \<Longrightarrow> Resize dev m r c b bt = Inr (dev1, m1) \<Longrightarrow> capacity_ok m1"
  by (auto simp: Resize_def Clear_def HANDLE_ERROR_def Let_def capacity_ok_def size_TMatrix_def
        set_shape_def
      split: sum.splits if_splits prod.splits)

lemma capacity_ok_Reshape: "Reshape m r c b bt = Inr m1 \<Longrightarrow> capacity_ok m1"
  by (auto simp: Reshape_def Let_def capacity_ok_def size_TMatrix_def set_shape_def
      split: if_splits)

lemma capacity_ok_Reshape2D: "capacity_ok m \<Longrightarrow> capacity_ok (Reshape2D m)"
  by (simp add: Reshape2D_def capacity_ok_def size_TMatrix_def mult_ac)

lemma capacity_ok_update:
  "\<forall>m\<in>set ms. capacity_ok m \<Longrightarrow> capacity_ok x \<Longrightarrow> \<forall>m\<in>set (ms[i := x]). capacity_ok m"
  using set_update_subset_insert [of ms i x] by blast

lemma capacity_ok_exec:
  assumes "\<forall>m\<in>set ms. capacity_ok m" and "exec s (dev, ms) = Inr (dev1, ms1)"
  shows "\<forall>m\<in>set ms1. capacity_ok m"
proof (cases s)
  case New_default
  with assms show ?thesis by (auto simp: capacity_ok_default)
next
  case (New_sized r c b bt z)
  with assms show ?thesis by (auto split: sum.splits dest: capacity_ok_sized)
next
  case (New_copy i)
  show ?thesis
  proof (cases "i < length ms")
    case True
    with assms(2) New_copy obtain m where r: "TMatrix_copy dev (ms ! i) = Inr (dev1, m)"
      and ms1: "ms1 = ms @ [m]" by (auto split: sum.splits)
    from True assms(1) have "capacity_ok (ms ! i)" by simp
    from capacity_ok_copy [OF this r] show ?thesis using assms(1) ms1 by simp
  next
    case False
    with assms New_copy show ?thesis by simp
  qed
next
  case (New_move i)
  show ?thesis
  proof (cases "i < length ms")
    case True
    obtain n src where mv: "TMatrix_move (ms ! i) = (n, src)" by (cases "TMatrix_move (ms ! i)")
    from True assms(1) have "capacity_ok (ms ! i)" by simp
    from capacity_ok_move [OF this mv] have "capacity_ok n" "capacity_ok src" by simp_all
    moreover from assms(2) New_move True mv have "ms1 = ms[i := src] @ [n]" by simp
    ultimately show ?thesis using capacity_ok_update [OF assms(1), of src i] by auto
  next
    case False
    with assms New_move show ?thesis by simp
  qed
next
  case (Do_Resize i r c b bt)
  show ?thesis
  proof (cases "i < length ms")
    case True
    with assms(2) Do_Resize obtain m where r: "Resize dev (ms ! i) r c b bt = Inr (dev1, m)"
      and ms1: "ms1 = ms[i := m]" by (auto split: sum.splits)
    from True assms(1) have "capacity_ok (ms ! i)" by simp
    from capacity_ok_Resize [OF this r] show ?thesis
      using capacity_ok_update [OF assms(1)] ms1 by simp
  next
    case False
    with assms Do_Resize show ?thesis by simp
  qed
next
  case (Do_Reshape i r c b bt)
  show ?thesis
  proof (cases "i < length ms")
    case True
    with assms(2) Do_Reshape obtain m where r: "Reshape (ms ! i) r c b bt = Inr m"
      and ms1: "ms1 = ms[i := m]" by (auto split: sum.splits)
    from capacity_ok_Reshape [OF r] show ?thesis
      using capacity_ok_update [OF assms(1)] ms1 by simp
  next
    case False
    with assms Do_Reshape show ?thesis by simp
  qed
next
  case (Do_Reshape2D i)
  show ?thesis
  proof (cases "i < length ms")
    case True
    with assms(1) have "capacity_ok (ms ! i)" by simp
    then have "capacity_ok (Reshape2D (ms ! i))" by (rule capacity_ok_Reshape2D)
    with assms Do_Reshape2D True show ?thesis using capacity_ok_update [OF assms(1)] by auto
  next
    case False
    with assms Do_Reshape2D show ?thesis by simp
  qed
next
  case (Do_Clear i)
  show ?thesis
  proof (cases "i < length ms")
    case True
    with assms(2) Do_Clear obtain m where r: "Clear dev (ms ! i) = Inr (dev1, m)"
      and ms1: "ms1 = ms[i := m]" by (auto split: sum.splits)
    from capacity_ok_Clear [OF r] show ?thesis
      using capacity_ok_update [OF assms(1)] ms1 by simp
  next
    case False
    with assms Do_Clear show ?thesis by simp
  qed
next
  case (Do_swap i j)
  show ?thesis
  proof (cases "i < length ms \<and> j < length ms")
    case True
    obtain a b where sw: "swap (ms ! i) (ms ! j) = (a, b)" by (cases "swap (ms ! i) (ms ! j)")
    from True assms(1) have "capacity_ok (ms ! i)" "capacity_ok (ms ! j)" by simp_all
    from capacity_ok_swap [OF this sw] have "capacity_ok a" "capacity_ok b" by simp_all
    moreover from assms(2) Do_swap True sw have "ms1 = ms[i := a, j := b]" by simp
    ultimately show ?thesis
      using capacity_ok_update [OF capacity_ok_update [OF assms(1), of a i], of b j] by blast
  next
    case False
    with assms Do_swap show ?thesis by auto
  qed
qed

lemma capacity_ok_run:
  "\<forall>m\<in>set ms. capacity_ok m \<Longrightarrow> run ss (dev, ms) = Inr (dev1, ms1)
     \<Longrightarrow> \<forall>m\<in>set ms1. capacity_ok m"
proof (induction ss arbitrary: dev ms)
  case Nil
  then show ?case by simp
next
  case (Cons s ss)
  from Cons.prems(2) obtain dev2 ms2 where e: "exec s (dev, ms) = Inr (dev2, ms2)"
    and r: "run ss (dev2, ms2) = Inr (dev1, ms1)"
    by (auto split: sum.splits)
  from capacity_ok_exec [OF Cons.prems(1) e] have "\<forall>m\<in>set ms2. capacity_ok m" .
  from Cons.IH [OF this r] show ?case .
qed

text \<open>
  What every successful run maintains is the bound on \<open>size()\<close>, the element count
  modulo \<open>2^64\<close>.
\<close>

lemma wrapped_size_within_capacity:
  "run ss (dev, []) = Inr (dev1, ms) \<Longrightarrow> \<forall>m\<in>set ms. size_TMatrix m \<le> arrSize' m"
  using capacity_ok_run [of "[]" ss dev dev1 ms] by (simp add: capacity_ok_def)

text \<open>
  C2. After every successful operation the capacity \<open>arrSize_\<close> is to be at least the
  logical element count \<open>rows_ * cols_ * beam_ * batches_\<close>. The operations multiply the
  dimensions in \<open>size_t\<close> and do not look for overflow: a matrix constructed with 2 rows
  and 3 columns accepts \<open>Reshape(2^32, 2^32, 1, 1)\<close>, whose product wraps to 0, and is
  left with \<open>2^64\<close> logical elements on a capacity of 6.
\<close>

theorem capacity_broken_by_overflowing_Reshape:
  "run [New_sized 2 3 1 1 False, Do_Reshape 0 4294967296 4294967296 1 1]
       (\<lparr>heap = [], avail = 1024\<rparr> :: int device, [])
   = Inr (\<lparr>heap = [(1, \<lparr>nbytes = 24, cells = replicate 6 Uninit\<rparr>)], avail = 1000\<rparr>,
          [\<lparr>rows' = 4294967296, cols' = 4294967296, beam' = 1, batches' = 1,
            arrSize' = 6, data' = 1\<rparr>])
   \<and> elements \<lparr>rows' = 4294967296, cols' = 4294967296, beam' = 1, batches' = 1,
                arrSize' = 6, data' = 1\<rparr> = 18446744073709551616
   \<and> unat (arrSize' \<lparr>rows' = 4294967296, cols' = 4294967296, beam' = 1, batches' = 1,
                      arrSize' = 6, data' = 1\<rparr>) = 6"
proof -
  have r: "run [New_sized 2 3 1 1 False, Do_Reshape 0 4294967296 4294967296 1 1]
       (\<lparr>heap = [], avail = 1024\<rparr> :: int device, [])
   = Inr (\<lparr>heap = [(1, \<lparr>nbytes = 24, cells = replicate 6 Uninit\<rparr>)], avail = 1000\<rparr>,
          [\<lparr>rows' = 4294967296, cols' = 4294967296, beam' = 1, batches' = 1,
            arrSize' = 6, data' = 1\<rparr>])"
    by code_simp
  then show ?thesis by (simp add: elements_def)
qed

section \<open>Reshape\<close>

text \<open>
  As long as the product of the requested dimensions fits \<open>size_t\<close>, \<open>Reshape\<close> fails
  with the capacity violation exactly when the product is above the capacity, and then
  leaves the matrix as it was.
\<close>

lemma Reshape_within_size_t:
  assumes "fits rows cols beam batches"
  shows "(unat (arrSize' m) < unat rows * unat cols * unat beam * unat batches \<longrightarrow>
      Reshape m rows cols beam batches
        = Inl (CapacityViolation ''Must reshape to same or smaller size'', m)) \<and>
   (unat rows * unat cols * unat beam * unat batches \<le> unat (arrSize' m) \<longrightarrow>
      Reshape m rows cols beam batches
        = Inr (m\<lparr>rows' := rows, cols' := cols, beam' := beam, batches' := batches\<rparr>))"
  using unat_product_fits [OF assms]
  by (simp add: Reshape_def set_shape_def Let_def word_less_nat_alt)

text \<open>
  C4. \<open>Reshape\<close> with more elements than the capacity is to fail always. On a matrix of
  capacity 6, \<open>Reshape(2^32, 2^32, 1, 1)\<close> asks for \<open>2^64\<close> elements; the product wraps to
  0 in \<open>size_t\<close>, the test \<open>newSize > arrSize_\<close> does not fire, and the call returns with
  the new shape.
\<close>

theorem Reshape_accepts_overflowing_product:
  "Reshape \<lparr>rows' = 2, cols' = 3, beam' = 1, batches' = 1, arrSize' = 6, data' = 1\<rparr>
      4294967296 4294967296 1 1
   = Inr \<lparr>rows' = 4294967296, cols' = 4294967296, beam' = 1, batches' = 1,
          arrSize' = 6, data' = 1\<rparr>
   \<and> unat (arrSize' \<lparr>rows' = 2, cols' = 3, beam' = 1, batches' = 1, arrSize' = 6, data' = 1\<rparr>)
     < unat (4294967296 :: size_t) * unat (4294967296 :: size_t) * unat (1 :: size_t)
         * unat (1 :: size_t)"
  by (simp add: Reshape_def set_shape_def)

section \<open>The conversion to bool\<close>

text \<open>
  C8. \<open>operator bool\<close> is to tell whether the logical element count \<open>size()\<close> is
  non-zero. It compares \<open>(int)size()\<close> with 0, which looks at the low 32 bits only: a
  matrix of \<open>2^32\<close> rows and one column holds 4294967296 elements and converts to
  \<open>false\<close>.
\<close>

theorem operator_bool_truncates:
  "size_TMatrix \<lparr>rows' = 4294967296, cols' = 1, beam' = 1, batches' = 1,
                 arrSize' = 4294967296, data' = 1\<rparr> = 4294967296
   \<and> \<not> operator_bool \<lparr>rows' = 4294967296, cols' = 1, beam' = 1, batches' = 1,
                        arrSize' = 4294967296, data' = 1\<rparr>"
  by (simp add: size_TMatrix_def operator_bool_def)

section \<open>The sized constructor\<close>

text \<open>
  \<open>TMatrix(rows, cols, beam, batches, zero)\<close> does not read \<open>beam\<close> and \<open>batches\<close>: the
  matrix has \<open>beam_ = 1\<close> and \<open>batches_ = 1\<close> and the capacity \<open>rows * cols\<close>, and the
  allocation is of \<open>rows * cols * sizeof(T)\<close> bytes, both products taken in \<open>size_t\<close>.
\<close>

lemma sized_constructor_fields:
  "TMatrix_sized dev rows cols beam batches zero = TMatrix_sized dev rows cols 1 1 zero \<and>
   (\<forall>dev1 m. TMatrix_sized dev rows cols beam batches zero = Inr (dev1, m) \<longrightarrow>
      rows' m = rows \<and> cols' m = cols \<and> beam' m = 1 \<and> batches' m = 1 \<and>
      arrSize' m = rows * cols \<and>
      avail dev1 + unat (rows * cols * sizeof_T) = avail dev \<and>
      (rows * cols * sizeof_T \<noteq> 0 \<longrightarrow>
         (\<exists>r. region_at dev1 (data' m) = Some r \<and>
              nbytes r = unat (rows * cols * sizeof_T) \<and>
              length (cells r) = unat (rows * cols * sizeof_T) div unat sizeof_T \<and>
              (unat (rows * cols) * unat sizeof_T < 2 ^ 64 \<longrightarrow>
                 length (cells r) = unat (rows * cols)))))"
proof (rule conjI)
  show "TMatrix_sized dev rows cols beam batches zero = TMatrix_sized dev rows cols 1 1 zero"
    by (simp add: TMatrix_sized_def)
next
  have nowrap: "unat (rows * cols * sizeof_T) div unat sizeof_T = unat (rows * cols)"
    if "unat (rows * cols) * unat sizeof_T < 2 ^ 64"
  proof -
    from that have "unat (rows * cols * sizeof_T) = unat (rows * cols) * unat sizeof_T"
      by (simp add: unat_mult_lem [THEN iffD1])
    then show ?thesis by (simp add: sizeof_T_def)
  qed
  show "\<forall>dev1 m. TMatrix_sized dev rows cols beam batches zero = Inr (dev1, m) \<longrightarrow>
      rows' m = rows \<and> cols' m = cols \<and> beam' m = 1 \<and> batches' m = 1 \<and>
      arrSize' m = rows * cols \<and>
      avail dev1 + unat (rows * cols * sizeof_T) = avail dev \<and>
      (rows * cols * sizeof_T \<noteq> 0 \<longrightarrow>
         (\<exists>r. region_at dev1 (data' m) = Some r \<and>
              nbytes r = unat (rows * cols * sizeof_T) \<and>
              length (cells r) = unat (rows * cols * sizeof_T) div unat sizeof_T \<and>
              (unat (rows * cols) * unat sizeof_T < 2 ^ 64 \<longrightarrow>
                 length (cells r) = unat (rows * cols))))"
    using nowrap
    by (auto simp: TMatrix_sized_def HANDLE_ERROR_def Let_def size_TMatrix_def cudaMalloc_def
        cudaMemset0_def region_at_def mult.commute
        split: sum.splits if_splits prod.splits option.splits)
qed

text \<open>
  C10. The constructed matrix is to have a capacity and an allocation of exactly
  \<open>rows * cols\<close> elements, whatever \<open>beam\<close> and \<open>batches\<close> are. The byte count
  \<open>arrSize_ * sizeof(T)\<close> is computed in \<open>size_t\<close>: \<open>TMatrix(2^62 + 1, 1, 7, 9)\<close> records
  a capacity of \<open>2^62 + 1\<close> elements and allocates 4 bytes, one element.
\<close>

theorem sized_constructor_allocation_wraps:
  "TMatrix_sized (\<lparr>heap = [], avail = 1024\<rparr> :: int device) 4611686018427387905 1 7 9 False
   = Inr (\<lparr>heap = [(1, \<lparr>nbytes = 4, cells = [Uninit]\<rparr>)], avail = 1020\<rparr>,
          \<lparr>rows' = 4611686018427387905, cols' = 1, beam' = 1, batches' = 1,
            arrSize' = 4611686018427387905, data' = 1\<rparr>)"
  by code_simp

section \<open>Resize, Reshape and Clear in sequence\<close>

lemma covered_Resize:
  assumes "fits r c b bt" and "Resize dev m r c b bt = Inr (dev1, m1)"
  shows "covered m1"
proof -
  have e: "elements (set_shape x r c b bt) = unat (c * r * b * bt)" for x
    using unat_product_fits [OF assms(1)] by (simp add: elements_def set_shape_def)
  have z: "elements (set_shape x r1 c1 b1 bt1) = 0" if "r1 = 0 \<or> c1 = 0" for x r1 c1 b1 bt1
    using that by (auto simp: elements_def set_shape_def)
  have a: "arrSize' (set_shape x r1 c1 b1 bt1) = arrSize' x" for x r1 c1 b1 bt1
    by (simp add: set_shape_def)
  from assms(2) show ?thesis
    unfolding covered_def
    by (auto simp: Resize_def Clear_def HANDLE_ERROR_def Let_def e z a word_le_nat_alt
          word_less_nat_alt
        split: sum.splits if_splits prod.splits)
qed


lemma covered_Reshape:
  assumes "fits r c b bt" and "Reshape m r c b bt = Inr m1"
  shows "covered m1"
  using assms(2) unat_product_fits [OF assms(1)]
  by (auto simp: Reshape_def Let_def covered_def elements_def set_shape_def word_less_nat_alt
      split: if_splits)

lemma covered_Clear: "Clear dev m = Inr (dev1, m1) \<Longrightarrow> covered m1"
  by (auto simp: Clear_def HANDLE_ERROR_def covered_def elements_def split: sum.splits)

lemma covered_call1:
  "covered m \<Longrightarrow> call_fits c \<Longrightarrow> call1 c (dev, m) = Inr (dev1, m1) \<Longrightarrow> covered m1"
  by (cases c) (auto dest: covered_Resize covered_Reshape covered_Clear split: sum.splits)

lemma covered_calls:
  "covered m \<Longrightarrow> list_all call_fits cs \<Longrightarrow> calls cs (dev, m) = Inr (dev1, m1) \<Longrightarrow> covered m1"
proof (induction cs arbitrary: dev m)
  case Nil
  then show ?case by simp
next
  case (Cons c cs)
  from Cons.prems(3) obtain dev2 m2 where c: "call1 c (dev, m) = Inr (dev2, m2)"
    and r: "calls cs (dev2, m2) = Inr (dev1, m1)"
    by (auto split: sum.splits)
  from Cons.prems(2) have f: "call_fits c" "list_all call_fits cs" by simp_all
  from covered_call1 [OF Cons.prems(1) f(1) c] have "covered m2" .
  from Cons.IH [OF this f(2) r] show ?case .
qed

lemma Clear_releases:
  assumes "data' m \<noteq> nullptr" and "Clear dev m = Inr (dev1, m1)"
  shows "m1 = \<lparr>rows' = 0, cols' = 0, beam' = 0, batches' = 0, arrSize' = 0, data' = nullptr\<rparr> \<and>
     region_at dev1 (data' m) = None \<and>
     (\<exists>reg. region_at dev (data' m) = Some reg \<and> avail dev1 = avail dev + nbytes reg) \<and>
     (\<forall>q. q \<noteq> data' m \<longrightarrow> region_at dev1 q = region_at dev q)"
  using assms
  by (auto simp: Clear_def HANDLE_ERROR_def cudaFree_def region_at_def map_of_filter_other
        map_of_filter_same
      split: sum.splits if_splits option.splits)

lemma Resize_zero_dimension:
  assumes "data' m \<noteq> nullptr" and "r = 0 \<or> c = 0"
    and "Resize dev m r c b bt = Inr (dev1, m1)"
  shows "m1 = \<lparr>rows' = r, cols' = c, beam' = b, batches' = bt, arrSize' = 0, data' = nullptr\<rparr> \<and>
     region_at dev1 (data' m) = None \<and>
     (\<exists>reg. region_at dev (data' m) = Some reg \<and> avail dev1 = avail dev + nbytes reg) \<and>
     (\<forall>q. q \<noteq> data' m \<longrightarrow> region_at dev1 q = region_at dev q)"
proof -
  from assms(2) have "c * r * b * bt = 0" by auto
  with assms(1,2,3) obtain m0 where cl: "Clear dev m = Inr (dev1, m0)"
    and m1: "m1 = set_shape m0 r c b bt"
    by (auto simp: Resize_def Let_def split: sum.splits if_splits)
  from Clear_releases [OF assms(1) cl] m1 show ?thesis
    by (simp add: set_shape_def)
qed

text \<open>
  C3, as amended. After any sequence of successful \<open>Resize\<close>, \<open>Reshape\<close> and \<open>Clear\<close>
  calls whose requested dimensions have a product that fits \<open>size_t\<close>, on a matrix whose
  capacity covered its logical element count, a capacity of 0 means a logical element
  count \<open>rows_ * cols_ * beam_ * batches_\<close> of 0. A \<open>Resize\<close> with \<open>rows == 0\<close> or
  \<open>cols == 0\<close> on a matrix that holds an allocation releases it: the region is gone
  from the device, its bytes are available again and no other region has changed; the
  matrix has capacity 0, a null pointer and element count 0, and its shape members are
  the requested ones.
\<close>

theorem zero_capacity_and_zero_dimension:
  "(elements m \<le> unat (arrSize' m) \<longrightarrow> list_all call_fits cs \<longrightarrow>
      calls cs (dev, m) = Inr (dev1, m1) \<longrightarrow> arrSize' m1 = 0 \<longrightarrow> elements m1 = 0) \<and>
   (data' n \<noteq> nullptr \<longrightarrow> r = 0 \<or> c = 0 \<longrightarrow> Resize devn n r c b bt = Inr (dev2, n2) \<longrightarrow>
      n2 = \<lparr>rows' = r, cols' = c, beam' = b, batches' = bt, arrSize' = 0, data' = nullptr\<rparr> \<and>
      elements n2 = 0 \<and>
      region_at dev2 (data' n) = None \<and>
      (\<exists>reg. region_at devn (data' n) = Some reg \<and> avail dev2 = avail devn + nbytes reg) \<and>
      (\<forall>q. q \<noteq> data' n \<longrightarrow> region_at dev2 q = region_at devn q))"
proof (intro conjI impI)
  assume "elements m \<le> unat (arrSize' m)" and "list_all call_fits cs"
    and "calls cs (dev, m) = Inr (dev1, m1)" and z: "arrSize' m1 = 0"
  then have "covered m1" using covered_calls [of m cs dev dev1 m1] by (simp add: covered_def)
  with z show "elements m1 = 0" by (simp add: covered_def)
next
  assume a: "data' n \<noteq> nullptr" "r = 0 \<or> c = 0" "Resize devn n r c b bt = Inr (dev2, n2)"
  note z = Resize_zero_dimension [OF a]
  from z show "n2 = \<lparr>rows' = r, cols' = c, beam' = b, batches' = bt, arrSize' = 0,
      data' = nullptr\<rparr>"
    by blast
  from z a(2) show "elements n2 = 0" by (auto simp: elements_def)
  from z show "region_at dev2 (data' n) = None" by blast
  from z show "\<exists>reg. region_at devn (data' n) = Some reg \<and> avail dev2 = avail devn + nbytes reg"
    by blast
  from z show "\<forall>q. q \<noteq> data' n \<longrightarrow> region_at dev2 q = region_at devn q" by blast
qed

theorem zero_capacity_and_zero_dimension_witness:
  "elements TMatrix_default \<le> unat (arrSize' TMatrix_default)
   \<and> list_all call_fits [Call_Resize 2 2 1 1, Call_Resize 0 5 1 1]
   \<and> calls [Call_Resize 2 2 1 1, Call_Resize 0 5 1 1]
        (\<lparr>heap = [], avail = 1024\<rparr> :: int device, TMatrix_default)
     = Inr (\<lparr>heap = [], avail = 1024\<rparr>,
            \<lparr>rows' = 0, cols' = 5, beam' = 1, batches' = 1, arrSize' = 0, data' = 0\<rparr>)
   \<and> arrSize' \<lparr>rows' = 0, cols' = 5, beam' = 1, batches' = 1, arrSize' = 0, data' = 0\<rparr> = 0
   \<and> elements \<lparr>rows' = 0, cols' = 5, beam' = 1, batches' = 1, arrSize' = 0, data' = 0\<rparr> = 0
   \<and> data' \<lparr>rows' = 2, cols' = 2, beam' = 1, batches' = 1, arrSize' = 4, data' = 1\<rparr> \<noteq> nullptr
   \<and> Resize (\<lparr>heap = [(1, \<lparr>nbytes = 16, cells = replicate 4 Uninit\<rparr>)], avail = 1008\<rparr>
               :: int device)
        \<lparr>rows' = 2, cols' = 2, beam' = 1, batches' = 1, arrSize' = 4, data' = 1\<rparr> 0 5 1 1
     = Inr (\<lparr>heap = [], avail = 1024\<rparr>,
            \<lparr>rows' = 0, cols' = 5, beam' = 1, batches' = 1, arrSize' = 0, data' = nullptr\<rparr>)
   \<and> region_at (\<lparr>heap = [], avail = 1024\<rparr> :: int device) 1 = None
   \<and> avail (\<lparr>heap = [], avail = 1024\<rparr> :: int device)
     = avail (\<lparr>heap = [(1, \<lparr>nbytes = 16, cells = replicate 4 Uninit\<rparr>)], avail = 1008\<rparr>
               :: int device) + 16"
proof -
  let ?d0 = "\<lparr>heap = [], avail = 1024\<rparr> :: int device"
  let ?d1 = "\<lparr>heap = [(1, \<lparr>nbytes = 16, cells = replicate 4 Uninit\<rparr>)], avail = 1008\<rparr>
               :: int device"
  let ?n = "\<lparr>rows' = 2, cols' = 2, beam' = 1, batches' = 1, arrSize' = 4, data' = 1\<rparr>"
  let ?e = "\<lparr>rows' = 0, cols' = 5, beam' = 1, batches' = 1, arrSize' = 0, data' = 0\<rparr>"
  let ?cs = "[Call_Resize 2 2 1 1, Call_Resize 0 5 1 1]"
  have h1: "elements TMatrix_default \<le> unat (arrSize' TMatrix_default)"
    by (simp add: TMatrix_default_def elements_def)
  have h2: "list_all call_fits ?cs" by (simp add: fits_def)
  have h3: "calls ?cs (?d0, TMatrix_default) = Inr (?d0, ?e)" by code_simp
  have h4: "arrSize' ?e = 0" by simp
  have h5: "data' ?n \<noteq> nullptr" by (simp add: nullptr_def)
  have h6: "(0 :: size_t) = 0 \<or> (5 :: size_t) = 0" by simp
  have h7: "Resize ?d1 ?n 0 5 1 1
      = Inr (?d0, \<lparr>rows' = 0, cols' = 5, beam' = 1, batches' = 1, arrSize' = 0,
                   data' = nullptr\<rparr>)"
    by code_simp
  note t = zero_capacity_and_zero_dimension
             [where m = TMatrix_default and cs = ?cs and dev = ?d0 and ?dev1.0 = ?d0
                and ?m1.0 = ?e and n = ?n and devn = ?d1 and r = 0 and c = 5 and b = 1
                and bt = 1 and ?dev2.0 = ?d0
                and ?n2.0 = "\<lparr>rows' = 0, cols' = 5, beam' = 1, batches' = 1, arrSize' = 0,
                                data' = nullptr\<rparr>"]
  from t h1 h2 h3 h4 have a: "elements ?e = 0" by blast
  from t h5 h6 h7 have b: "region_at ?d0 (data' ?n) = None" by blast
  from a b h1 h2 h3 h4 h5 h7 show ?thesis by simp
qed

text \<open>
  C3 as stated fails in both directions. \<open>Resize(2, 2)\<close> and then \<open>Resize(0, 5)\<close> leave
  capacity 0 with the shape (0, 5, 1, 1); \<open>Resize(1, 1)\<close> and then
  \<open>Reshape(0, 0, 0, 0)\<close> leave an all-zero shape with capacity 1.
\<close>

theorem zero_capacity_iff_zero_shape_counterexample:
  "calls [Call_Resize 2 2 1 1, Call_Resize 0 5 1 1]
     (\<lparr>heap = [], avail = 1024\<rparr> :: int device, TMatrix_default)
   = Inr (\<lparr>heap = [], avail = 1024\<rparr>,
          \<lparr>rows' = 0, cols' = 5, beam' = 1, batches' = 1, arrSize' = 0, data' = 0\<rparr>)
   \<and> calls [Call_Resize 1 1 1 1, Call_Reshape 0 0 0 0]
     (\<lparr>heap = [], avail = 1024\<rparr> :: int device, TMatrix_default)
   = Inr (\<lparr>heap = [(1, \<lparr>nbytes = 4, cells = [Uninit]\<rparr>)], avail = 1020\<rparr>,
          \<lparr>rows' = 0, cols' = 0, beam' = 0, batches' = 0, arrSize' = 1, data' = 1\<rparr>)"
  by code_simp

section \<open>The copy constructor\<close>







section \<open>Zero filling\<close>

lemma Resize_writes_nothing:
  assumes R: "Resize dev m r c b bt = Inr (dev2, m2)"
    and nn: "data' m2 \<noteq> nullptr"
    and reg: "region_at dev2 (data' m2) = Some reg"
    and i: "i < length (cells reg)"
  shows "cells reg ! i = Uninit \<or>
     (\<exists>old. region_at dev (data' m) = Some old \<and> i < length (cells old) \<and>
            cells reg ! i = cells old ! i)"
proof (cases "data' m = nullptr")
  case True
  with R nn reg i show ?thesis
    by (auto simp: Resize_def Let_def HANDLE_ERROR_def cudaMalloc_def set_shape_def region_at_def
        split: sum.splits if_splits prod.splits)
next
  case False
  let ?newSize = "c * r * b * bt"
  show ?thesis
  proof (cases "arrSize' m < ?newSize")
    case grow: True
    let ?p = "fresh_ptr (heap dev)"
    let ?n = "unat (?newSize * sizeof_T) div unat sizeof_T"
    let ?k = "unat (size_TMatrix m * sizeof_T) div unat sizeof_T"
    let ?rnew = "\<lparr>nbytes = unat (?newSize * sizeof_T), cells = replicate ?n (Uninit :: 'a cell)\<rparr>"
    from R False grow obtain newData dev1 dev2a where
      ma: "cudaMalloc dev (?newSize * sizeof_T) = Inr (newData, dev1)"
      and cp: "cudaMemcpyAsync dev1 newData (data' m) (size_TMatrix m * sizeof_T) = Inr dev2a"
      and fr: "cudaFree dev2a (data' m) = Inr dev2"
      and m2: "data' m2 = newData"
      by (auto simp: Resize_def Let_def HANDLE_ERROR_def set_shape_def
          split: sum.splits prod.splits)
    from ma m2 nn have p: "newData = ?p" and d1: "heap dev1 = (?p, ?rnew) # heap dev"
      by (auto simp: cudaMalloc_def Let_def split: if_splits)
    from fr False have h2: "heap dev2 = filter (\<lambda>e. fst e \<noteq> data' m) (heap dev2a)"
      by (auto simp: cudaFree_def split: option.splits)
    have ne: "data' m \<noteq> ?p"
    proof
      assume "data' m = ?p"
      with h2 p m2 have "region_at dev2 (data' m2) = None"
        by (simp add: region_at_def map_of_filter_same)
      with reg show False by simp
    qed
    from reg h2 ne p m2 have reg2: "map_of (heap dev2a) ?p = Some reg"
      by (simp add: region_at_def map_of_filter_other [OF ne [symmetric]])
    show ?thesis
    proof (cases "size_TMatrix m * sizeof_T = 0")
      case True
      with cp have "dev2a = dev1" by (simp add: cudaMemcpyAsync_def)
      with reg2 d1 have "reg = ?rnew" by simp
      with i show ?thesis by simp
    next
      case nz: False
      from cp nz p d1 ne obtain rs where
        rs: "map_of (heap dev) (data' m) = Some rs"
        and h2a: "heap dev2a = (?p, ?rnew\<lparr>cells := take ?k (cells rs) @ drop ?k (cells ?rnew)\<rparr>)
                     # filter (\<lambda>e. fst e \<noteq> ?p) (heap dev1)"
        by (auto simp: cudaMemcpyAsync_def Let_def split: option.splits if_splits)
      from reg2 h2a have cr: "cells reg = take ?k (cells rs) @ drop ?k (cells ?rnew)"
        by auto
      show ?thesis
      proof (cases "i < length (take ?k (cells rs))")
        case True
        then have "cells reg ! i = cells rs ! i" "i < length (cells rs)"
          by (simp_all add: cr nth_append)
        with rs show ?thesis by (simp add: region_at_def)
      next
        case False
        with i cr have "cells reg ! i = Uninit"
          by (auto simp: nth_append)
        then show ?thesis by simp
      qed
    qed
  next
    case keep: False
    from R \<open>data' m \<noteq> nullptr\<close> keep nn have "dev2 = dev \<and> data' m2 = data' m"
      by (auto simp: Resize_def Let_def Clear_def HANDLE_ERROR_def set_shape_def
          split: sum.splits if_splits)
    with reg i show ?thesis by simp
  qed
qed

text \<open>
  C6, as amended. The flag is an argument of the sized constructor (\<open>zero\<close>, false unless
  given): when it is set, every cell of the region the constructor allocates is 0, and
  when it is false every cell is uninitialised. \<open>Resize\<close> has no such argument and never
  fills: after a \<open>Resize\<close> every cell of the matrix's region is uninitialised or holds
  what the region of the matrix held at that index before the call, and on a matrix
  without an allocation the region it allocates is uninitialised throughout.
\<close>

theorem zero_fill_only_in_constructor:
  "(\<forall>dev1 m. TMatrix_sized dev rows cols beam batches True = Inr (dev1, m) \<longrightarrow>
      rows * cols * sizeof_T \<noteq> 0 \<longrightarrow>
      (\<exists>r. region_at dev1 (data' m) = Some r \<and>
           cells r = replicate (unat (rows * cols * sizeof_T) div unat sizeof_T) (Val 0))) \<and>
   (\<forall>dev1 m. TMatrix_sized dev rows cols beam batches False = Inr (dev1, m) \<longrightarrow>
      rows * cols * sizeof_T \<noteq> 0 \<longrightarrow>
      (\<exists>r. region_at dev1 (data' m) = Some r \<and>
           cells r = replicate (unat (rows * cols * sizeof_T) div unat sizeof_T) Uninit)) \<and>
   (\<forall>dev2 m2. data' m0 = nullptr \<longrightarrow>
      Resize dev m0 rows cols beam batches = Inr (dev2, m2) \<longrightarrow>
      cols * rows * beam * batches * sizeof_T \<noteq> 0 \<longrightarrow>
      (\<exists>r. region_at dev2 (data' m2) = Some r \<and>
           cells r = replicate (unat (cols * rows * beam * batches * sizeof_T) div unat sizeof_T)
                       Uninit)) \<and>
   (\<forall>m1 dev3 m3 reg i.
      Resize dev m1 rows cols beam batches = Inr (dev3, m3) \<longrightarrow>
      data' m3 \<noteq> nullptr \<longrightarrow> region_at dev3 (data' m3) = Some reg \<longrightarrow>
      i < length (cells reg) \<longrightarrow>
      cells reg ! i = Uninit \<or>
      (\<exists>old. region_at dev (data' m1) = Some old \<and> i < length (cells old) \<and>
             cells reg ! i = cells old ! i))"
proof (intro conjI)
  show "\<forall>dev1 m. TMatrix_sized dev rows cols beam batches True = Inr (dev1, m) \<longrightarrow>
      rows * cols * sizeof_T \<noteq> 0 \<longrightarrow>
      (\<exists>r. region_at dev1 (data' m) = Some r \<and>
           cells r = replicate (unat (rows * cols * sizeof_T) div unat sizeof_T) (Val 0))"
    by (auto simp: TMatrix_sized_def HANDLE_ERROR_def Let_def size_TMatrix_def
          cudaMalloc_def cudaMemset0_def region_at_def mult.commute
        split: sum.splits if_splits prod.splits option.splits)
  show "\<forall>dev1 m. TMatrix_sized dev rows cols beam batches False = Inr (dev1, m) \<longrightarrow>
      rows * cols * sizeof_T \<noteq> 0 \<longrightarrow>
      (\<exists>r. region_at dev1 (data' m) = Some r \<and>
           cells r = replicate (unat (rows * cols * sizeof_T) div unat sizeof_T) Uninit)"
    by (auto simp: TMatrix_sized_def HANDLE_ERROR_def Let_def size_TMatrix_def
          cudaMalloc_def region_at_def mult.commute
        split: sum.splits if_splits prod.splits option.splits)
  show "\<forall>dev2 m2. data' m0 = nullptr \<longrightarrow>
      Resize dev m0 rows cols beam batches = Inr (dev2, m2) \<longrightarrow>
      cols * rows * beam * batches * sizeof_T \<noteq> 0 \<longrightarrow>
      (\<exists>r. region_at dev2 (data' m2) = Some r \<and>
           cells r = replicate (unat (cols * rows * beam * batches * sizeof_T) div unat sizeof_T)
                       Uninit)"
    by (auto simp: Resize_def HANDLE_ERROR_def Let_def cudaMalloc_def region_at_def
          set_shape_def
        split: sum.splits if_splits prod.splits option.splits)
  show "\<forall>m1 dev3 m3 reg i.
      Resize dev m1 rows cols beam batches = Inr (dev3, m3) \<longrightarrow>
      data' m3 \<noteq> nullptr \<longrightarrow> region_at dev3 (data' m3) = Some reg \<longrightarrow>
      i < length (cells reg) \<longrightarrow>
      cells reg ! i = Uninit \<or>
      (\<exists>old. region_at dev (data' m1) = Some old \<and> i < length (cells old) \<and>
             cells reg ! i = cells old ! i)"
    using Resize_writes_nothing [of dev _ rows cols beam batches] by blast
qed

theorem zero_fill_only_in_constructor_witness:
  "TMatrix_sized (\<lparr>heap = [], avail = 1024\<rparr> :: int device) 2 1 1 1 True
     = Inr (\<lparr>heap = [(1, \<lparr>nbytes = 8, cells = [Val 0, Val 0]\<rparr>)], avail = 1016\<rparr>,
            \<lparr>rows' = 2, cols' = 1, beam' = 1, batches' = 1, arrSize' = 2, data' = 1\<rparr>)
   \<and> TMatrix_sized (\<lparr>heap = [], avail = 1024\<rparr> :: int device) 2 1 1 1 False
     = Inr (\<lparr>heap = [(1, \<lparr>nbytes = 8, cells = [Uninit, Uninit]\<rparr>)], avail = 1016\<rparr>,
            \<lparr>rows' = 2, cols' = 1, beam' = 1, batches' = 1, arrSize' = 2, data' = 1\<rparr>)
   \<and> (2 :: size_t) * 1 * sizeof_T \<noteq> 0
   \<and> data' TMatrix_default = nullptr
   \<and> Resize (\<lparr>heap = [], avail = 1024\<rparr> :: int device) TMatrix_default 2 1 1 1
     = Inr (\<lparr>heap = [(1, \<lparr>nbytes = 8, cells = [Uninit, Uninit]\<rparr>)], avail = 1016\<rparr>,
            \<lparr>rows' = 2, cols' = 1, beam' = 1, batches' = 1, arrSize' = 2, data' = 1\<rparr>)
   \<and> (1 :: size_t) * 2 * 1 * 1 * sizeof_T \<noteq> 0
   \<and> (\<exists>r. region_at (\<lparr>heap = [(1, \<lparr>nbytes = 8, cells = [Val 0, Val 0]\<rparr>)], avail = 1016\<rparr>
                        :: int device) 1 = Some r \<and>
          cells r = replicate (unat ((2 :: size_t) * 1 * sizeof_T) div unat sizeof_T) (Val 0))
   \<and> (\<exists>r. region_at (\<lparr>heap = [(1, \<lparr>nbytes = 8, cells = [Uninit, Uninit]\<rparr>)], avail = 1016\<rparr>
                        :: int device) 1 = Some r \<and>
          cells r = replicate (unat ((2 :: size_t) * 1 * sizeof_T) div unat sizeof_T) Uninit)
   \<and> Resize (\<lparr>heap = [(1, \<lparr>nbytes = 8, cells = [Val 0, Val 0]\<rparr>)], avail = 1016\<rparr> :: int device)
        \<lparr>rows' = 2, cols' = 1, beam' = 1, batches' = 1, arrSize' = 2, data' = 1\<rparr> 4 1 1 1
     = Inr (\<lparr>heap = [(2, \<lparr>nbytes = 16, cells = [Val 0, Val 0, Uninit, Uninit]\<rparr>)],
             avail = 1008\<rparr>,
            \<lparr>rows' = 4, cols' = 1, beam' = 1, batches' = 1, arrSize' = 4, data' = 2\<rparr>)
   \<and> data' \<lparr>rows' = 4, cols' = 1, beam' = 1, batches' = 1, arrSize' = 4, data' = 2\<rparr> \<noteq> nullptr
   \<and> region_at (\<lparr>heap = [(2, \<lparr>nbytes = 16, cells = [Val 0, Val 0, Uninit, Uninit]\<rparr>)],
                  avail = 1008\<rparr> :: int device) 2
     = Some \<lparr>nbytes = 16, cells = [Val 0, Val 0, Uninit, Uninit]\<rparr>
   \<and> (2 :: nat) < length [Val (0 :: int), Val 0, Uninit, Uninit]
   \<and> [Val (0 :: int), Val 0, Uninit, Uninit] ! 2 = Uninit"
proof -
  let ?d0 = "\<lparr>heap = [], avail = 1024\<rparr> :: int device"
  let ?dz = "\<lparr>heap = [(1, \<lparr>nbytes = 8, cells = [Val 0, Val 0]\<rparr>)], avail = 1016\<rparr> :: int device"
  let ?du = "\<lparr>heap = [(1, \<lparr>nbytes = 8, cells = [Uninit, Uninit]\<rparr>)], avail = 1016\<rparr>
               :: int device"
  let ?m = "\<lparr>rows' = 2, cols' = 1, beam' = 1, batches' = 1, arrSize' = 2, data' = 1\<rparr>"
  let ?dg = "\<lparr>heap = [(2, \<lparr>nbytes = 16, cells = [Val 0, Val 0, Uninit, Uninit]\<rparr>)],
               avail = 1008\<rparr> :: int device"
  let ?mg = "\<lparr>rows' = 4, cols' = 1, beam' = 1, batches' = 1, arrSize' = 4, data' = 2\<rparr>"
  let ?rg = "\<lparr>nbytes = 16, cells = [Val (0 :: int), Val 0, Uninit, Uninit]\<rparr>"
  have h1: "TMatrix_sized ?d0 2 1 1 1 True = Inr (?dz, ?m)" by code_simp
  have h1f: "TMatrix_sized ?d0 2 1 1 1 False = Inr (?du, ?m)" by code_simp
  have h2: "(2 :: size_t) * 1 * sizeof_T \<noteq> 0" by (simp add: sizeof_T_def)
  have h3: "data' TMatrix_default = nullptr" by (simp add: TMatrix_default_def)
  have h4: "Resize ?d0 TMatrix_default 2 1 1 1 = Inr (?du, ?m)" by code_simp
  have h5: "(1 :: size_t) * 2 * 1 * 1 * sizeof_T \<noteq> 0" by (simp add: sizeof_T_def)
  have h6: "Resize ?dz ?m 4 1 1 1 = Inr (?dg, ?mg)" by code_simp
  have h7: "data' ?mg \<noteq> nullptr" by (simp add: nullptr_def)
  have h8: "region_at ?dg 2 = Some ?rg" by (simp add: region_at_def)
  have h9: "(2 :: nat) < length [Val (0 :: int), Val 0, Uninit, Uninit]" by simp
  note t = zero_fill_only_in_constructor [of ?d0 2 1 1 1 TMatrix_default]
  note g = zero_fill_only_in_constructor [of ?dz 4 1 1 1 TMatrix_default]
  from t h1 h2
  have a: "\<exists>r. region_at ?dz 1 = Some r \<and>
          cells r = replicate (unat ((2 :: size_t) * 1 * sizeof_T) div unat sizeof_T) (Val 0)"
    by simp
  from t h1f h2
  have b: "\<exists>r. region_at ?du 1 = Some r \<and>
          cells r = replicate (unat ((2 :: size_t) * 1 * sizeof_T) div unat sizeof_T) Uninit"
    by simp
  from g h6 h7 h8 h9
  have "cells ?rg ! 2 = Uninit \<or>
      (\<exists>old. region_at ?dz (data' ?m) = Some old \<and> 2 < length (cells old) \<and>
             cells ?rg ! 2 = cells old ! 2)"
    by simp
  then have c: "[Val (0 :: int), Val 0, Uninit, Uninit] ! 2 = Uninit"
    by (auto simp: region_at_def)
  from a b c h1 h1f h2 h3 h4 h5 h6 h7 h8 h9 show ?thesis by blast
qed

text \<open>
  C6 as stated fails: \<open>Resize\<close> takes four dimensions and nothing else, and the region
  of the first allocation is left uninitialised.
\<close>

theorem Resize_zero_fill_counterexample:
  "Resize (\<lparr>heap = [], avail = 1024\<rparr> :: int device) TMatrix_default 2 1 1 1
   = Inr (\<lparr>heap = [(1, \<lparr>nbytes = 8, cells = [Uninit, Uninit]\<rparr>)], avail = 1016\<rparr>,
          \<lparr>rows' = 2, cols' = 1, beam' = 1, batches' = 1, arrSize' = 2, data' = 1\<rparr>)"
  by code_simp

section \<open>The scheduling loop\<close>

lemma slice_loop_total:
  "0 < miniSize \<Longrightarrow> \<exists>bs. slice_loop miniSize xs q = Some (q @ bs) \<and> concat bs = xs"
proof (induction "length xs" arbitrary: xs q rule: less_induct)
  case less
  show ?case
  proof (cases "xs = []")
    case True
    then show ?thesis by (simp add: slice_loop.simps)
  next
    case False
    let ?n = "unat miniSize"
    from less.prems have n: "0 < ?n" by (simp add: unat_gt_0)
    with False have "length (drop ?n xs) < length xs" by simp
    from less.hyps [OF this less.prems, of "q @ [take ?n xs]"]
    obtain bs where bs: "slice_loop miniSize (drop ?n xs) (q @ [take ?n xs])
        = Some ((q @ [take ?n xs]) @ bs)" "concat bs = drop ?n xs"
      by blast
    from False have "slice_loop miniSize xs q
        = slice_loop miniSize (drop ?n xs) (q @ [take ?n xs])"
      by (subst slice_loop.simps) (simp add: NextMiniBatch_def)
    with bs have "slice_loop miniSize xs q = Some (q @ (take ?n xs # bs))
        \<and> concat (take ?n xs # bs) = xs"
      by simp
    then show ?thesis by blast
  qed
qed

lemma sentences_from_Cons:
  "sentences_from tok n0 (ln # lns) = Sentence_new tok n0 ln # sentences_from tok (n0 + 1) lns"
proof -
  have "map (\<lambda>(k, ln). Sentence_new tok (n0 + of_nat k) ln) (enumerate (Suc 0) lns)
      = map (\<lambda>(k, ln). Sentence_new tok (n0 + 1 + of_nat k) ln) (enumerate 0 lns)"
    by (simp add: enumerate_Suc_eq map_prod_def case_prod_beta comp_def add.assoc)
  then show ?thesis by (simp add: sentences_from_def)
qed

lemma read_loop_total:
  assumes "0 < miniSize"
  shows "\<exists>st1. read_loop tok miniSize maxiSize lns st = Some st1 \<and>
     lineNum st1 = lineNum st + of_nat (length lns) \<and>
     mset (concat (enqueued st1)) + mset (maxiBatch st1)
       = mset (concat (enqueued st)) + mset (maxiBatch st)
         + mset (sentences_from tok (lineNum st) lns)"
proof (induction lns arbitrary: st)
  case Nil
  then show ?case by (simp add: sentences_from_def)
next
  case (Cons ln lns)
  let ?s = "Sentence_new tok (lineNum st) ln"
  let ?st1 = "st\<lparr>maxiBatch := maxiBatch st @ [?s], lineNum := lineNum st + 1\<rparr>"
  show ?case
  proof (cases "unat maxiSize \<le> length (maxiBatch ?st1)")
    case True
    from slice_loop_total [OF assms, of "SortByLength (maxiBatch ?st1)" "enqueued ?st1"]
    obtain bs where bs: "slice_loop miniSize (SortByLength (maxiBatch ?st1)) (enqueued ?st1)
        = Some (enqueued ?st1 @ bs)" "concat bs = SortByLength (maxiBatch ?st1)"
      by blast
    let ?st2 = "?st1\<lparr>maxiBatch := [], enqueued := enqueued ?st1 @ bs\<rparr>"
    from True bs(1) have step: "read_loop tok miniSize maxiSize (ln # lns) st
        = read_loop tok miniSize maxiSize lns ?st2"
      by (simp add: Let_def)
    from Cons.IH [of ?st2] obtain st3 where
      st3: "read_loop tok miniSize maxiSize lns ?st2 = Some st3"
        "lineNum st3 = lineNum ?st2 + of_nat (length lns)"
        "mset (concat (enqueued st3)) + mset (maxiBatch st3)
           = mset (concat (enqueued ?st2)) + mset (maxiBatch ?st2)
             + mset (sentences_from tok (lineNum ?st2) lns)"
      by blast
    have "mset (concat (enqueued ?st2)) = mset (concat (enqueued st)) + mset (maxiBatch st) + {#?s#}"
      using bs(2) by (simp add: SortByLength_def)
    with st3 step show ?thesis
      by (simp add: sentences_from_Cons add.assoc)
  next
    case False
    then have step: "read_loop tok miniSize maxiSize (ln # lns) st
        = read_loop tok miniSize maxiSize lns ?st1"
      by (simp add: Let_def)
    from Cons.IH [of ?st1] obtain st3 where
      st3: "read_loop tok miniSize maxiSize lns ?st1 = Some st3"
        "lineNum st3 = lineNum ?st1 + of_nat (length lns)"
        "mset (concat (enqueued st3)) + mset (maxiBatch st3)
           = mset (concat (enqueued ?st1)) + mset (maxiBatch ?st1)
             + mset (sentences_from tok (lineNum ?st1) lns)"
      by blast
    with step show ?thesis
      by (simp add: sentences_from_Cons add.assoc)
  qed
qed

text \<open>
  C1. For every input of N lines, with \<open>miniSize > 0\<close> and \<open>maxiSize > 0\<close>, \<open>main\<close> comes
  to its end, and the mini-batches it has enqueued hold, taken together as a multiset,
  exactly the N sentences of the input: each once, each with the 0-based index that
  \<open>lineNum\<close> had when its line was read.
\<close>

theorem main_dispatches_every_sentence_once:
  assumes "0 < miniSize" and "0 < maxiSize"
  shows "\<exists>q. main tok miniSize maxiSize lns = Some q \<and>
     mset (concat q) = mset (map (\<lambda>(k, ln). Sentence_new tok (of_nat k) ln) (enumerate 0 lns))"
proof -
  from read_loop_total [OF assms(1), of tok maxiSize lns main_init]
  obtain st where st: "read_loop tok miniSize maxiSize lns main_init = Some st"
    "mset (concat (enqueued st)) + mset (maxiBatch st) = mset (sentences_from tok 0 lns)"
    by (auto simp: main_init_def)
  show ?thesis
  proof (cases "maxiBatch st = []")
    case True
    with st show ?thesis by (simp add: main_def last_batch_def sentences_from_def)
  next
    case False
    from slice_loop_total [OF assms(1), of "SortByLength (maxiBatch st)" "enqueued st"]
    obtain bs where bs: "slice_loop miniSize (SortByLength (maxiBatch st)) (enqueued st)
        = Some (enqueued st @ bs)" "concat bs = SortByLength (maxiBatch st)"
      by blast
    from bs(2) have "mset (concat (enqueued st @ bs)) = mset (concat (enqueued st)) + mset (maxiBatch st)"
      by (simp add: SortByLength_def)
    with False st bs(1) show ?thesis
      by (simp add: main_def last_batch_def sentences_from_def)
  qed
qed

theorem main_dispatches_every_sentence_once_witness:
  "(0 :: size_t) < 2 \<and> (0 :: size_t) < 4
   \<and> main Split 2 4 [''a b c d e'', ''d'', ''e f g'', ''g h'', ''x'', '' y  z '']
     = Some [[\<lparr>lineNo = 1, tokens = [''d'']\<rparr>, \<lparr>lineNo = 3, tokens = [''g'', ''h'']\<rparr>],
             [\<lparr>lineNo = 2, tokens = [''e'', ''f'', ''g'']\<rparr>,
              \<lparr>lineNo = 0, tokens = [''a'', ''b'', ''c'', ''d'', ''e'']\<rparr>],
             [\<lparr>lineNo = 4, tokens = [''x'']\<rparr>, \<lparr>lineNo = 5, tokens = [''y'', ''z'']\<rparr>]]
   \<and> mset (concat
        [[\<lparr>lineNo = 1, tokens = [''d'']\<rparr>, \<lparr>lineNo = 3, tokens = [''g'', ''h'']\<rparr>],
         [\<lparr>lineNo = 2, tokens = [''e'', ''f'', ''g'']\<rparr>,
          \<lparr>lineNo = 0, tokens = [''a'', ''b'', ''c'', ''d'', ''e'']\<rparr>],
         [\<lparr>lineNo = 4, tokens = [''x'']\<rparr>, \<lparr>lineNo = 5, tokens = [''y'', ''z'']\<rparr>]])
     = mset (map (\<lambda>(k, ln). Sentence_new Split (of_nat k) ln)
               (enumerate 0 [''a b c d e'', ''d'', ''e f g'', ''g h'', ''x'', '' y  z '']))"
proof -
  have h1: "(0 :: size_t) < 2" by simp
  have h2: "(0 :: size_t) < 4" by simp
  have m: "main Split 2 4 [''a b c d e'', ''d'', ''e f g'', ''g h'', ''x'', '' y  z '']
     = Some [[\<lparr>lineNo = 1, tokens = [''d'']\<rparr>, \<lparr>lineNo = 3, tokens = [''g'', ''h'']\<rparr>],
             [\<lparr>lineNo = 2, tokens = [''e'', ''f'', ''g'']\<rparr>,
              \<lparr>lineNo = 0, tokens = [''a'', ''b'', ''c'', ''d'', ''e'']\<rparr>],
             [\<lparr>lineNo = 4, tokens = [''x'']\<rparr>, \<lparr>lineNo = 5, tokens = [''y'', ''z'']\<rparr>]]"
    by code_simp
  from main_dispatches_every_sentence_once
         [OF h1 h2, of Split "[''a b c d e'', ''d'', ''e f g'', ''g h'', ''x'', '' y  z '']"]
  obtain q where q: "main Split 2 4 [''a b c d e'', ''d'', ''e f g'', ''g h'', ''x'', '' y  z '']
       = Some q"
    "mset (concat q)
       = mset (map (\<lambda>(k, ln). Sentence_new Split (of_nat k) ln)
                 (enumerate 0 [''a b c d e'', ''d'', ''e f g'', ''g h'', ''x'', '' y  z '']))"
    by blast
  from q(1) m have "q = [[\<lparr>lineNo = 1, tokens = [''d'']\<rparr>, \<lparr>lineNo = 3, tokens = [''g'', ''h'']\<rparr>],
             [\<lparr>lineNo = 2, tokens = [''e'', ''f'', ''g'']\<rparr>,
              \<lparr>lineNo = 0, tokens = [''a'', ''b'', ''c'', ''d'', ''e'']\<rparr>],
             [\<lparr>lineNo = 4, tokens = [''x'']\<rparr>, \<lparr>lineNo = 5, tokens = [''y'', ''z'']\<rparr>]]"
    by simp
  with q(2) h1 h2 m show ?thesis by blast
qed

lemma slice_loop_Nil: "slice_loop n [] q = Some q"
  by (simp add: slice_loop.simps)

lemma slice_loop_step:
  "xs \<noteq> [] \<Longrightarrow> slice_loop n xs q = slice_loop n (drop (unat n) xs) (q @ [take (unat n) xs])"
  by (subst slice_loop.simps) (simp add: NextMiniBatch_def)

lemma slice_five:
  assumes "length S = 5"
  shows "slice_loop 2 S q = Some (q @ [take 2 S, take 2 (drop 2 S), drop 4 S])"
proof -
  from assms have 1: "S \<noteq> []" by auto
  from assms have 2: "drop 2 S \<noteq> []" by simp
  from assms have 3: "drop 4 S \<noteq> []" by simp
  from assms have 4: "take 2 (drop 4 S) = drop 4 S" by simp
  from assms have 5: "drop 6 S = []" by simp
  have "slice_loop 2 S q = slice_loop 2 (drop 2 S) (q @ [take 2 S])"
    using slice_loop_step [OF 1, of 2 q] by simp
  also have "\<dots> = slice_loop 2 (drop 4 S) (q @ [take 2 S, take 2 (drop 2 S)])"
    using slice_loop_step [OF 2, of 2 "q @ [take 2 S]"] by simp
  also have "\<dots> = slice_loop 2 [] (q @ [take 2 S, take 2 (drop 2 S), drop 4 S])"
    using slice_loop_step [OF 3, of 2 "q @ [take 2 S, take 2 (drop 2 S)]"] 4 5 by simp
  finally show ?thesis by (simp add: slice_loop_Nil)
qed

text \<open>
  C7, as amended. With \<open>maxiSize = 5\<close> and \<open>miniSize = 2\<close> and exactly 5 lines, the fifth
  line fills the maxi-batch (\<open>size() >= maxiSize\<close>), so the cycle runs inside the reading
  loop: it sorts the 5 sentences and enqueues mini-batches of sizes 2, 2 and 1 that cover
  them, in sorted order. The reading loop ends with an empty accumulator, and the block
  after it enqueues nothing.
\<close>

theorem five_sentences_dispatched_in_loop:
  "read_loop tok 2 5 [l0, l1, l2, l3, l4] main_init
     = Some \<lparr>maxiBatch = [], lineNum = 5,
             enqueued =
               [take 2 (SortByLength [Sentence_new tok 0 l0, Sentence_new tok 1 l1,
                  Sentence_new tok 2 l2, Sentence_new tok 3 l3, Sentence_new tok 4 l4]),
                take 2 (drop 2 (SortByLength [Sentence_new tok 0 l0, Sentence_new tok 1 l1,
                  Sentence_new tok 2 l2, Sentence_new tok 3 l3, Sentence_new tok 4 l4])),
                drop 4 (SortByLength [Sentence_new tok 0 l0, Sentence_new tok 1 l1,
                  Sentence_new tok 2 l2, Sentence_new tok 3 l3, Sentence_new tok 4 l4])]\<rparr>
   \<and> main tok 2 5 [l0, l1, l2, l3, l4]
     = Some [take 2 (SortByLength [Sentence_new tok 0 l0, Sentence_new tok 1 l1,
                  Sentence_new tok 2 l2, Sentence_new tok 3 l3, Sentence_new tok 4 l4]),
             take 2 (drop 2 (SortByLength [Sentence_new tok 0 l0, Sentence_new tok 1 l1,
                  Sentence_new tok 2 l2, Sentence_new tok 3 l3, Sentence_new tok 4 l4])),
             drop 4 (SortByLength [Sentence_new tok 0 l0, Sentence_new tok 1 l1,
                  Sentence_new tok 2 l2, Sentence_new tok 3 l3, Sentence_new tok 4 l4])]
   \<and> map length
        [take 2 (SortByLength [Sentence_new tok 0 l0, Sentence_new tok 1 l1,
                  Sentence_new tok 2 l2, Sentence_new tok 3 l3, Sentence_new tok 4 l4]),
         take 2 (drop 2 (SortByLength [Sentence_new tok 0 l0, Sentence_new tok 1 l1,
                  Sentence_new tok 2 l2, Sentence_new tok 3 l3, Sentence_new tok 4 l4])),
         drop 4 (SortByLength [Sentence_new tok 0 l0, Sentence_new tok 1 l1,
                  Sentence_new tok 2 l2, Sentence_new tok 3 l3, Sentence_new tok 4 l4])]
     = [2, 2, 1]"
proof -
  let ?S = "SortByLength [Sentence_new tok 0 l0, Sentence_new tok 1 l1,
                  Sentence_new tok 2 l2, Sentence_new tok 3 l3, Sentence_new tok 4 l4]"
  have len: "length ?S = 5" by (simp add: SortByLength_def)
  have r: "read_loop tok 2 5 [l0, l1, l2, l3, l4] main_init
     = Some \<lparr>maxiBatch = [], lineNum = 5,
             enqueued = [take 2 ?S, take 2 (drop 2 ?S), drop 4 ?S]\<rparr>"
    using slice_five [OF len, of "[]"] by (simp add: main_init_def Let_def)
  have m: "main tok 2 5 [l0, l1, l2, l3, l4] = Some [take 2 ?S, take 2 (drop 2 ?S), drop 4 ?S]"
    unfolding main_def r by (simp add: last_batch_def)
  from len have l: "map length [take 2 ?S, take 2 (drop 2 ?S), drop 4 ?S] = [2, 2, 1]"
    by simp
  from r m l show ?thesis by blast
qed

text \<open>
  C7 as stated fails: after the reading loop over five lines the three mini-batches are
  enqueued already and the accumulator is empty, and the block for the last batch leaves
  the state as it finds it.
\<close>

theorem flush_path_counterexample:
  "read_loop Split 2 5 [''a b c'', ''d'', ''e f'', ''g h i j'', ''k l''] main_init
   = Some \<lparr>maxiBatch = [], lineNum = 5,
           enqueued =
             [[\<lparr>lineNo = 1, tokens = [''d'']\<rparr>, \<lparr>lineNo = 2, tokens = [''e'', ''f'']\<rparr>],
              [\<lparr>lineNo = 4, tokens = [''k'', ''l'']\<rparr>,
               \<lparr>lineNo = 0, tokens = [''a'', ''b'', ''c'']\<rparr>],
              [\<lparr>lineNo = 3, tokens = [''g'', ''h'', ''i'', ''j'']\<rparr>]]\<rparr>
   \<and> last_batch 2
       \<lparr>maxiBatch = [], lineNum = 5,
           enqueued =
             [[\<lparr>lineNo = 1, tokens = [''d'']\<rparr>, \<lparr>lineNo = 2, tokens = [''e'', ''f'']\<rparr>],
              [\<lparr>lineNo = 4, tokens = [''k'', ''l'']\<rparr>,
               \<lparr>lineNo = 0, tokens = [''a'', ''b'', ''c'']\<rparr>],
              [\<lparr>lineNo = 3, tokens = [''g'', ''h'', ''i'', ''j'']\<rparr>]]\<rparr>
   = Some \<lparr>maxiBatch = [], lineNum = 5,
           enqueued =
             [[\<lparr>lineNo = 1, tokens = [''d'']\<rparr>, \<lparr>lineNo = 2, tokens = [''e'', ''f'']\<rparr>],
              [\<lparr>lineNo = 4, tokens = [''k'', ''l'']\<rparr>,
               \<lparr>lineNo = 0, tokens = [''a'', ''b'', ''c'']\<rparr>],
              [\<lparr>lineNo = 3, tokens = [''g'', ''h'', ''i'', ''j'']\<rparr>]]\<rparr>"
  by code_simp

lemma read_loop_maxi_zero:
  assumes "0 < miniSize" and "maxiBatch st = []"
  shows "read_loop tok miniSize 0 lns st
     = Some (st\<lparr>lineNum := lineNum st + of_nat (length lns),
                enqueued := enqueued st @ map (\<lambda>s. [s]) (sentences_from tok (lineNum st) lns)\<rparr>)"
  using assms(2)
proof (induction lns arbitrary: st)
  case Nil
  then show ?case by (simp add: sentences_from_def)
next
  case (Cons ln lns)
  let ?s = "Sentence_new tok (lineNum st) ln"
  from assms(1) have n: "0 < unat miniSize" by (simp add: unat_gt_0)
  have "slice_loop miniSize [?s] (enqueued st) = slice_loop miniSize [] (enqueued st @ [[?s]])"
    using slice_loop_step [of "[?s]" miniSize "enqueued st"] n by simp
  then have sl: "slice_loop miniSize (SortByLength [?s]) (enqueued st) = Some (enqueued st @ [[?s]])"
    by (simp add: slice_loop_Nil SortByLength_def)
  let ?st2 = "st\<lparr>maxiBatch := [], lineNum := lineNum st + 1, enqueued := enqueued st @ [[?s]]\<rparr>"
  from Cons.prems sl have "read_loop tok miniSize 0 (ln # lns) st = read_loop tok miniSize 0 lns ?st2"
    by (cases st) (simp add: Let_def)
  also have "\<dots> = Some (?st2\<lparr>lineNum := lineNum ?st2 + of_nat (length lns),
                enqueued := enqueued ?st2 @ map (\<lambda>s. [s]) (sentences_from tok (lineNum ?st2) lns)\<rparr>)"
    by (rule Cons.IH) simp
  finally have fin: "read_loop tok miniSize 0 (ln # lns) st
      = Some (?st2\<lparr>lineNum := lineNum ?st2 + of_nat (length lns),
                enqueued := enqueued ?st2 @ map (\<lambda>s. [s]) (sentences_from tok (lineNum ?st2) lns)\<rparr>)" .
  have eq: "?st2\<lparr>lineNum := lineNum ?st2 + of_nat (length lns),
                enqueued := enqueued ?st2 @ map (\<lambda>s. [s]) (sentences_from tok (lineNum ?st2) lns)\<rparr>
      = st\<lparr>lineNum := lineNum st + of_nat (length (ln # lns)),
           enqueued := enqueued st @ map (\<lambda>s. [s]) (sentences_from tok (lineNum st) (ln # lns))\<rparr>"
    using Cons.prems by (cases st) (simp add: sentences_from_Cons add.assoc)
  show ?case by (simp only: fin eq)
qed

text \<open>
  With \<open>miniSize = 0\<close> a round of the inner loop takes nothing from the accumulator: on a
  non-empty accumulator the loop never ends.
\<close>

lemma slice_loop_Some_zero:
  assumes "slice_loop n xs q = Some y"
  shows "n = 0 \<longrightarrow> xs = []"
proof (rule slice_loop.raw_induct [where P = "\<lambda>n xs q y. n = 0 \<longrightarrow> xs = []", OF _ assms])
  fix f :: "size_t \<Rightarrow> Sentence list \<Rightarrow> Sentence list list \<Rightarrow> Sentence list list option"
    and miniSize maxi q y
  assume IH: "\<And>m xs q y. f m xs q = Some y \<Longrightarrow> m = 0 \<longrightarrow> xs = []"
    and eq: "(if length maxi \<noteq> 0
              then f miniSize (snd (NextMiniBatch maxi miniSize))
                     (q @ [fst (NextMiniBatch maxi miniSize)])
              else Some q) = Some y"
  show "miniSize = 0 \<longrightarrow> maxi = []"
  proof (intro impI, rule ccontr)
    assume n: "miniSize = 0" and ne: "maxi \<noteq> []"
    with eq have "f 0 maxi (q @ [[]]) = Some y"
      by (simp add: NextMiniBatch_def)
    from IH [OF this] ne show False by simp
  qed
qed

lemma slice_loop_zero_never_ends:
  "xs \<noteq> [] \<Longrightarrow> slice_loop 0 xs q = None"
  using slice_loop_Some_zero [of 0 xs q] by (cases "slice_loop 0 xs q") auto

text \<open>
  C9, as amended. \<open>main\<close> does not check the two sizes before its loop. With a maxi-batch
  size of 0 and a mini-batch size above 0 it reads the whole input, and every line is
  appended to the accumulator and enqueued at once as a mini-batch of its own.
\<close>

theorem maxi_batch_zero_dispatches_each_line:
  assumes "0 < miniSize"
  shows "main tok miniSize 0 lns
     = Some (map (\<lambda>(k, ln). [Sentence_new tok (of_nat k) ln]) (enumerate 0 lns))"
  using read_loop_maxi_zero [OF assms, of main_init tok lns]
  by (simp add: main_def main_init_def last_batch_def sentences_from_def case_prod_beta comp_def)

theorem maxi_batch_zero_dispatches_each_line_witness:
  "(0 :: size_t) < 1
   \<and> main Split 1 0 [''a b c'', ''d'']
     = Some (map (\<lambda>(k, ln). [Sentence_new Split (of_nat k) ln])
               (enumerate 0 [''a b c'', ''d'']))"
proof -
  have h: "(0 :: size_t) < 1" by simp
  from maxi_batch_zero_dispatches_each_line [OF h, of Split "[''a b c'', ''d'']"] h
  show ?thesis by blast
qed

text \<open>
  C9 as stated fails: with \<open>maxi-batch = 0\<close> and \<open>mini-batch = 1\<close>, two lines of input
  are submitted and enqueued.
\<close>

theorem zero_maxi_batch_counterexample:
  "main Split 1 0 [''a b c'', ''d'']
   = Some [[\<lparr>lineNo = 0, tokens = [''a'', ''b'', ''c'']\<rparr>], [\<lparr>lineNo = 1, tokens = [''d'']\<rparr>]]"
  by code_simp

end
